theory Spec2Isabelle
  imports Complex_Main "HOL-Library.Multiset" "HOL-Library.AList"
begin

section \<open>JavaScript values\<close>

text \<open>
  Numbers are JavaScript doubles in the source. The embedding computes with exact
  rationals: a finite number is a \<open>rat\<close>, arithmetic is exact, and the only place where
  \<open>NaN\<close> is produced from data (\<open>Number(raw)\<close> of something that is not numeric) is
  modelled by \<open>None\<close> and immediately replaced by \<open>0\<close>, as \<open>Number(raw) || 0\<close> does.
  Rounding errors of binary floating point and the infinities are outside the embedding.
\<close>

datatype jsval = JUndefined | JNull | JBool bool | JNum rat | JStr string

text \<open>
  The two conversions between strings and numbers are built-ins of the language, not
  code of the repository; they are parameters of the embedding.
  \<open>Number_str s\<close> is \<open>Number(s)\<close> for a string (\<open>None\<close> is \<open>NaN\<close>),
  \<open>String_num r\<close> is \<open>String(r)\<close> for a number.
\<close>

record js_runtime =
  Number_str :: "string \<Rightarrow> rat option"
  String_num :: "rat \<Rightarrow> string"

text \<open>A property read \<open>obj[key]\<close>: an absent key reads as \<open>undefined\<close>.\<close>

definition get_prop :: "(string \<rightharpoonup> jsval) \<Rightarrow> string \<Rightarrow> jsval" where
  "get_prop obj key = (case obj key of None \<Rightarrow> JUndefined | Some v \<Rightarrow> v)"

text \<open>Truthiness, as used by \<open>!x\<close> and \<open>x || y\<close>.\<close>

fun truthy :: "jsval \<Rightarrow> bool" where
  "truthy JUndefined = False"
| "truthy JNull = False"
| "truthy (JBool b) = b"
| "truthy (JNum r) = (r \<noteq> 0)"
| "truthy (JStr s) = (s \<noteq> [])"

text \<open>\<open>Number(raw) || 0\<close>.\<close>

fun Number_or_0 :: "js_runtime \<Rightarrow> jsval \<Rightarrow> rat" where
  "Number_or_0 rt JUndefined = 0"
| "Number_or_0 rt JNull = 0"
| "Number_or_0 rt (JBool b) = (if b then 1 else 0)"
| "Number_or_0 rt (JNum r) = r"
| "Number_or_0 rt (JStr s) = (case Number_str rt s of None \<Rightarrow> 0 | Some r \<Rightarrow> r)"

text \<open>Decimal rendering of a natural number, \<open>String(n)\<close> for a non-negative integer.\<close>

definition digit_char :: "nat \<Rightarrow> char" where
  "digit_char d = ''0123456789'' ! d"

fun String_nat :: "nat \<Rightarrow> string" where
  "String_nat n = (if n < 10 then [digit_char n] else String_nat (n div 10) @ [digit_char (n mod 10)])"

declare String_nat.simps [simp del]

definition String_int :: "int \<Rightarrow> string" where
  "String_int i = (if i < 0 then CHR ''-'' # String_nat (nat (- i)) else String_nat (nat i))"

text \<open>\<open>s.padStart(2, '0')\<close>.\<close>

definition padStart2 :: "string \<Rightarrow> string" where
  "padStart2 s = replicate (2 - length s) CHR ''0'' @ s"

text \<open>
  \<open>x.toFixed(1)\<close> for \<open>|x| < 10^21\<close>: the sign, then the integer \<open>n\<close> nearest to
  \<open>|x| * 10\<close> (the larger one on a tie) written with a point before its last digit.
\<close>

definition toFixed1 :: "rat \<Rightarrow> string" where
  "toFixed1 x =
     (let n = nat \<lfloor>\<bar>x\<bar> * 10 + 1 / 2\<rfloor>
      in (if x < 0 then ''-'' else []) @ String_nat (n div 10) @ ''.'' @ String_nat (n mod 10))"

text \<open>\<open>Math.round\<close>: the nearest integer, a tie going up.\<close>

definition Math_round :: "rat \<Rightarrow> int" where
  "Math_round x = \<lfloor>x + 1 / 2\<rfloor>"

text \<open>\<open>Math.max(...xs)\<close> of a non-empty list, given as head and tail.\<close>

definition Math_max :: "rat \<Rightarrow> rat list \<Rightarrow> rat" where
  "Math_max x xs = fold max xs x"

section \<open>Viewport controller (Analysis page)\<close>

text \<open>
  \<open>yDomain\<close> is a pair whose components are a number or the string \<open>'auto'\<close>;
  \<open>isDragging\<close> and \<open>lastY\<close> are the drag state of the component.
\<close>

datatype bound = Auto | Num rat

record view_state =
  yDomain :: "bound \<times> bound"
  isDragging :: bool
  lastY :: rat

definition initial_view :: view_state where
  "initial_view = \<lparr>yDomain = (Num 0, Auto), isDragging = False, lastY = 0\<rparr>"

definition resetZoom :: "view_state \<Rightarrow> view_state" where
  "resetZoom st = st\<lparr>yDomain := (Num 0, Auto)\<rparr>"

text \<open>
  \<open>handleWheel\<close>. The argument \<open>ys\<close> is the list
  \<open>chartData.map(d => Number(d[config.yAxis]) || 0)\<close> that the handler computes twice;
  it is empty exactly when \<open>chartData\<close> is, in which case the handler returns at once.
\<close>

definition handleWheel :: "rat list \<Rightarrow> rat \<Rightarrow> view_state \<Rightarrow> view_state" where
  "handleWheel ys deltaY st =
     (case ys of
        [] \<Rightarrow> st
      | y # rest \<Rightarrow>
          (let currentMax = (case snd (yDomain st) of
                               Auto \<Rightarrow> Math_max y rest * (11 / 10)
                             | Num m \<Rightarrow> m);
               currentMin = (case fst (yDomain st) of Auto \<Rightarrow> 0 | Num m \<Rightarrow> m);
               range = currentMax - currentMin;
               zoomFactor = (if deltaY > 0 then 1 / 10 else - (1 / 10));
               newRange = range * (1 + zoomFactor);
               maxDataValue = Math_max y rest * (11 / 10);
               finalRange = min newRange maxDataValue
           in st\<lparr>yDomain := (Num currentMin, Num (currentMin + finalRange))\<rparr>))"

text \<open>A sequence of scroll ticks, one \<open>deltaY\<close> per tick, over the same chart data.\<close>

definition wheel_ticks :: "rat list \<Rightarrow> rat list \<Rightarrow> view_state \<Rightarrow> view_state" where
  "wheel_ticks ys deltas st = fold (handleWheel ys) deltas st"

definition handleMouseDown :: "rat \<Rightarrow> view_state \<Rightarrow> view_state" where
  "handleMouseDown clientY st = st\<lparr>isDragging := True, lastY := clientY\<rparr>"

definition handleMouseUp :: "view_state \<Rightarrow> view_state" where
  "handleMouseUp st = st\<lparr>isDragging := False\<rparr>"

text \<open>
  \<open>handleMouseMove\<close>. The source casts both components of \<open>yDomain\<close> to numbers once
  the upper one is not \<open>'auto'\<close>. Every write of the component sets the lower one to a
  number, so the cast is sound on every reachable state; on the remaining pair
  (\<open>'auto'\<close> below a number), where JavaScript would compute with the string, the
  embedding returns \<open>NonNumericDomain\<close>. The handler reads the range from the rendered
  \<open>yDomain\<close> and adds the shift to the current one (\<open>prev\<close>); the embedding has one
  state, the two being the same whenever a render separates two moves.
\<close>

datatype pan_error = NonNumericDomain

definition handleMouseMove :: "rat \<Rightarrow> view_state \<Rightarrow> pan_error + view_state" where
  "handleMouseMove clientY st =
     (if isDragging st then
        (case yDomain st of
           (_, Auto) \<Rightarrow> Inr st
         | (Auto, Num hi) \<Rightarrow> Inl NonNumericDomain
         | (Num lo, Num hi) \<Rightarrow>
             (let delta = lastY st - clientY;
                  range = hi - lo;
                  factor = range * (2 / 1000);
                  shift = delta * factor
              in Inr (st\<lparr>yDomain := (Num (lo + shift), Num (hi + shift)), lastY := clientY\<rparr>)))
      else Inr st)"

text \<open>
  The states that scroll ticks reach from the initial view: the lower bound is \<open>0\<close> and
  the upper bound, once set, is at most \<open>m\<close>.
\<close>

definition zoom_inv :: "rat \<Rightarrow> view_state \<Rightarrow> bool" where
  "zoom_inv m st =
     (fst (yDomain st) = Num 0 \<and> (case snd (yDomain st) of Auto \<Rightarrow> True | Num hi \<Rightarrow> hi \<le> m))"

section \<open>Aggregation engine (Analysis page)\<close>

datatype ChartType = Column | Bar | Line | Area | Combo | Scatter | Histogram | Pareto

record ChartConfig =
  ctype :: ChartType
  xAxis :: string
  yAxis :: string
  secondaryYAxis :: "string option"
  groupBy :: "string option"
  target :: "rat option"

text \<open>
  A submission as the page holds it: the document id and the \<open>data\<close> object, a finite
  map from field names to primitive values.
\<close>

record submission =
  sub_id :: string
  data :: "string \<rightharpoonup> jsval"

record bin =
  bin_range :: string
  bin_count :: nat
  bin_start :: rat
  bin_end :: rat
  bin_target :: "rat option"

text \<open>
  \<open>Math.round((cumulative / total) * 100)\<close> is an integer unless \<open>total\<close> is zero,
  where the quotient is \<open>NaN\<close> or an infinity: \<open>NotFinite\<close>. (The variable \<open>total\<close> is
  \<open>total_v\<close> below.)
\<close>

datatype percentage = Percent int | NotFinite

record pareto_item =
  item_name :: string
  item_value :: rat
  cumulativePercentage :: percentage
  item_target :: "rat option"

datatype chart_point =
    BinPoint bin
  | ParetoPoint pareto_item
  | SeriesPoint "string \<rightharpoonup> jsval"

subsection \<open>Histogram\<close>

definition binCount :: nat where
  "binCount = 10"

definition make_bins :: "rat \<Rightarrow> rat \<Rightarrow> rat option \<Rightarrow> bin list" where
  "make_bins mn binSize tgt =
     map (\<lambda>i. let start = mn + of_nat i * binSize;
                  end' = start + binSize
              in \<lparr>bin_range = toFixed1 start @ '' - '' @ toFixed1 end',
                  bin_count = 0,
                  bin_start = start,
                  bin_end = end',
                  bin_target = tgt\<rparr>)
         [0..<binCount]"

text \<open>The position of the element that \<open>Array.prototype.find\<close> returns.\<close>

fun find_index :: "('a \<Rightarrow> bool) \<Rightarrow> 'a list \<Rightarrow> nat option" where
  "find_index P [] = None"
| "find_index P (x # xs) = (if P x then Some 0 else map_option Suc (find_index P xs))"

text \<open>
  One step of \<open>values.forEach\<close>: the first bin with \<open>v >= b.start && v < b.end\<close>, or the
  last bin when there is none, has its \<open>count\<close> incremented in place.
\<close>

definition holds :: "rat \<Rightarrow> bin \<Rightarrow> bool" where
  "holds v b = (v \<ge> bin_start b \<and> v < bin_end b)"

definition bin_index :: "rat \<Rightarrow> bin list \<Rightarrow> nat" where
  "bin_index v bins = (case find_index (holds v) bins of Some i \<Rightarrow> i | None \<Rightarrow> length bins - 1)"

definition count_value :: "rat \<Rightarrow> bin list \<Rightarrow> bin list" where
  "count_value v bins =
     (let i = bin_index v bins
      in bins[i := (bins ! i)\<lparr>bin_count := bin_count (bins ! i) + 1\<rparr>])"

text \<open>\<open>Number(s.data[config.yAxis]) || 0\<close>, the numeric reading of a submission.\<close>

definition yValue :: "js_runtime \<Rightarrow> ChartConfig \<Rightarrow> submission \<Rightarrow> rat" where
  "yValue rt config s = Number_or_0 rt (get_prop (data s) (yAxis config))"

definition yValues :: "js_runtime \<Rightarrow> submission list \<Rightarrow> ChartConfig \<Rightarrow> rat list" where
  "yValues rt submissions config = map (yValue rt config) submissions"

text \<open>\<open>(max - min) / binCount || 1\<close>.\<close>

definition binSize_of :: "rat \<Rightarrow> rat \<Rightarrow> rat" where
  "binSize_of mn mx =
     (if (mx - mn) / of_nat binCount = 0 then 1 else (mx - mn) / of_nat binCount)"

definition histogram :: "js_runtime \<Rightarrow> submission list \<Rightarrow> ChartConfig \<Rightarrow> bin list" where
  "histogram rt submissions config =
     (let values = sort (yValues rt submissions config)
      in if length values = 0 then []
         else (let mn = hd values;
                   mx = last values;
                   binSize = binSize_of mn mx;
                   bins = make_bins mn binSize (target config)
               in fold count_value values bins))"

subsection \<open>Pareto\<close>

text \<open>\<open>String(v)\<close> of a primitive value.\<close>

fun String_val :: "js_runtime \<Rightarrow> jsval \<Rightarrow> string" where
  "String_val rt JUndefined = ''undefined''"
| "String_val rt JNull = ''null''"
| "String_val rt (JBool b) = (if b then ''true'' else ''false'')"
| "String_val rt (JNum r) = String_num rt r"
| "String_val rt (JStr s) = s"

text \<open>\<open>String(sub.data[config.xAxis] || 'Unknown')\<close>.\<close>

definition pareto_key :: "js_runtime \<Rightarrow> ChartConfig \<Rightarrow> submission \<Rightarrow> string" where
  "pareto_key rt config sub =
     (let x = get_prop (data sub) (xAxis config)
      in String_val rt (if truthy x then x else JStr ''Unknown''))"

text \<open>
  The accumulator \<open>grouped\<close> is an object used as a dictionary. It is modelled by the
  list of its own properties in creation order; \<open>grouped[key]\<close> is an own-property
  read (category names that are members of \<open>Object.prototype\<close> are outside the
  embedding). \<open>grouped[key] = (grouped[key] || 0) + val\<close> overwrites an existing
  property in place and appends a new one.
\<close>

definition or_0 :: "rat option \<Rightarrow> rat" where
  "or_0 v = (case v of None \<Rightarrow> 0 | Some r \<Rightarrow> (if r \<noteq> 0 then r else 0))"

definition add_to_group :: "js_runtime \<Rightarrow> ChartConfig \<Rightarrow> submission \<Rightarrow> (string \<times> rat) list \<Rightarrow> (string \<times> rat) list" where
  "add_to_group rt config sub grouped =
     (let key = pareto_key rt config sub;
          val = yValue rt config sub
      in AList.update key (or_0 (map_of grouped key) + val) grouped)"

text \<open>
  \<open>Object.entries\<close> lists the properties whose name is an array index (the canonical
  decimal form of an integer below \<open>2^32 - 1\<close>) first, in ascending numeric order, and
  then the other properties in creation order.
\<close>

definition is_digit :: "char \<Rightarrow> bool" where
  "is_digit c = (c \<in> set ''0123456789'')"

definition digit_value :: "char \<Rightarrow> nat" where
  "digit_value c = of_char c - 48"

definition nat_of_digits :: "string \<Rightarrow> nat" where
  "nat_of_digits s = fold (\<lambda>c n. 10 * n + digit_value c) s 0"

definition array_index :: "string \<Rightarrow> nat option" where
  "array_index s =
     (if s \<noteq> [] \<and> list_all is_digit s \<and> (s = ''0'' \<or> hd s \<noteq> CHR ''0'')
         \<and> nat_of_digits s < 2 ^ 32 - 1
      then Some (nat_of_digits s) else None)"

definition index_rank :: "string \<times> 'v \<Rightarrow> nat" where
  "index_rank e = (case array_index (fst e) of None \<Rightarrow> 0 | Some n \<Rightarrow> n)"

definition Object_entries :: "(string \<times> 'v) list \<Rightarrow> (string \<times> 'v) list" where
  "Object_entries obj =
     sort_key index_rank (filter (\<lambda>e. array_index (fst e) \<noteq> None) obj)
     @ filter (\<lambda>e. array_index (fst e) = None) obj"

text \<open>
  The final \<open>sorted.map\<close> with its running variable \<open>cumulative\<close>.
\<close>

definition percent_of :: "rat \<Rightarrow> rat \<Rightarrow> percentage" where
  "percent_of cumulative total_v =
     (if total_v = 0 then NotFinite else Percent (Math_round ((cumulative / total_v) * 100)))"

fun cumulate :: "rat \<Rightarrow> rat option \<Rightarrow> rat \<Rightarrow> (string \<times> rat) list \<Rightarrow> pareto_item list" where
  "cumulate total_v tgt cumulative [] = []"
| "cumulate total_v tgt cumulative (item # rest) =
     (let cumulative' = cumulative + snd item
      in \<lparr>item_name = fst item,
          item_value = snd item,
          cumulativePercentage = percent_of cumulative' total_v,
          item_target = tgt\<rparr>
         # cumulate total_v tgt cumulative' rest)"

definition grouped_of :: "js_runtime \<Rightarrow> submission list \<Rightarrow> ChartConfig \<Rightarrow> (string \<times> rat) list" where
  "grouped_of rt submissions config = fold (add_to_group rt config) submissions []"

text \<open>
  \<open>sort((a, b) => b.value - a.value)\<close> is a stable sort by descending value, that is,
  by ascending negated value.
\<close>

definition pareto :: "js_runtime \<Rightarrow> submission list \<Rightarrow> ChartConfig \<Rightarrow> pareto_item list" where
  "pareto rt submissions config =
     (let grouped = grouped_of rt submissions config;
          sorted = sort_key (\<lambda>e. - snd e) (Object_entries grouped);
          total_v = foldl (\<lambda>sum item. sum + snd item) 0 sorted
      in cumulate total_v (target config) 0 sorted)"

text \<open>
  For stating what the grouping computes: the sum of the numeric readings of the
  submissions whose key is \<open>k\<close>.
\<close>

definition group_sum :: "js_runtime \<Rightarrow> ChartConfig \<Rightarrow> submission list \<Rightarrow> string \<Rightarrow> rat" where
  "group_sum rt config submissions k =
     sum_list (map (yValue rt config) (filter (\<lambda>s. pareto_key rt config s = k) submissions))"

text \<open>The value of the variable \<open>sorted\<close>, as pairs of name and value.\<close>

definition sorted_groups :: "js_runtime \<Rightarrow> submission list \<Rightarrow> ChartConfig \<Rightarrow> (string \<times> rat) list" where
  "sorted_groups rt subs config =
     sort_key (\<lambda>e. - snd e) (Object_entries (grouped_of rt subs config))"

subsection \<open>The transform\<close>

definition target_val :: "ChartConfig \<Rightarrow> jsval" where
  "target_val config = (case target config of None \<Rightarrow> JUndefined | Some t \<Rightarrow> JNum t)"

definition series_point :: "js_runtime \<Rightarrow> ChartConfig \<Rightarrow> nat \<times> submission \<Rightarrow> chart_point" where
  "series_point rt config = (\<lambda>(index, sub).
     SeriesPoint ((data sub)
       (''index'' \<mapsto> JNum (of_nat (index + 1)),
        yAxis config \<mapsto> JNum (yValue rt config sub),
        ''target'' \<mapsto> target_val config)))"

definition chartData :: "js_runtime \<Rightarrow> submission list \<Rightarrow> ChartConfig \<Rightarrow> chart_point list" where
  "chartData rt submissions config =
     (if length submissions = 0 \<or> xAxis config = [] \<or> yAxis config = [] then []
      else if ctype config = Histogram then map BinPoint (histogram rt submissions config)
      else if ctype config = Pareto then map ParetoPoint (pareto rt submissions config)
      else map (series_point rt config) (enumerate 0 submissions))"

text \<open>
  A runtime for evaluating examples: \<open>Number\<close> of the empty string and of a string of
  decimal digits, \<open>String\<close> of an integer. The examples of this theory hold numbers as
  numbers and names as strings, so they consult neither.
\<close>

definition example_runtime :: js_runtime where
  "example_runtime =
     \<lparr>Number_str = (\<lambda>s. if list_all is_digit s then Some (of_nat (nat_of_digits s)) else None),
      String_num = (\<lambda>r. String_int \<lfloor>r\<rfloor>)\<rparr>"

subsection \<open>Scenarios\<close>

text \<open>
  The submissions \<open>[{cat: "A", val: 10}, {cat: "B", val: 30}, {cat: "A", val: 10}]\<close> and
  a chart configuration of type \<open>ty\<close> with \<open>xAxis = "cat"\<close>, \<open>yAxis = "val"\<close>.
\<close>

definition abc_submissions :: "submission list" where
  "abc_submissions =
     [\<lparr>sub_id = ''s1'', data = [''cat'' \<mapsto> JStr ''A'', ''val'' \<mapsto> JNum 10]\<rparr>,
      \<lparr>sub_id = ''s2'', data = [''cat'' \<mapsto> JStr ''B'', ''val'' \<mapsto> JNum 30]\<rparr>,
      \<lparr>sub_id = ''s3'', data = [''cat'' \<mapsto> JStr ''A'', ''val'' \<mapsto> JNum 10]\<rparr>]"

definition cat_val_config :: "ChartType \<Rightarrow> ChartConfig" where
  "cat_val_config ty =
     \<lparr>ctype = ty, xAxis = ''cat'', yAxis = ''val'', secondaryYAxis = None, groupBy = None,
      target = None\<rparr>"

text \<open>
  Submissions whose category is the number \<open>0\<close>, the empty string, \<open>false\<close>, absent,
  \<open>null\<close>, and the string \<open>"Unknown"\<close>.
\<close>

definition falsy_submissions :: "submission list" where
  "falsy_submissions =
     [\<lparr>sub_id = ''s1'', data = [''cat'' \<mapsto> JNum 0, ''val'' \<mapsto> JNum 5]\<rparr>,
      \<lparr>sub_id = ''s2'', data = [''cat'' \<mapsto> JStr [], ''val'' \<mapsto> JNum 7]\<rparr>,
      \<lparr>sub_id = ''s3'', data = [''cat'' \<mapsto> JBool False, ''val'' \<mapsto> JNum 1]\<rparr>,
      \<lparr>sub_id = ''s4'', data = [''val'' \<mapsto> JNum 2]\<rparr>,
      \<lparr>sub_id = ''s5'', data = [''cat'' \<mapsto> JNull, ''val'' \<mapsto> JNum 3]\<rparr>,
      \<lparr>sub_id = ''s6'', data = [''cat'' \<mapsto> JStr ''Unknown'', ''val'' \<mapsto> JNum 4]\<rparr>]"

text \<open>Ten submissions with \<open>Score\<close> values \<open>10, 20, ..., 100\<close>, and one with \<open>Score = 5\<close>.\<close>

definition score_submission :: "rat \<Rightarrow> submission" where
  "score_submission v = \<lparr>sub_id = ''s'', data = [''Score'' \<mapsto> JNum v]\<rparr>"

definition score_submissions :: "submission list" where
  "score_submissions = map score_submission [10, 20, 30, 40, 50, 60, 70, 80, 90, 100]"

definition score_config :: ChartConfig where
  "score_config =
     \<lparr>ctype = Histogram, xAxis = ''Score'', yAxis = ''Score'', secondaryYAxis = None,
      groupBy = None, target = None\<rparr>"

section \<open>Row validation and bulk import (Data Entry page)\<close>

datatype FieldType = FText | FNumber | FDate | FTime | FDecimal | FDropdown

record FormField =
  field_id :: string
  name :: string
  ftype :: FieldType
  required :: bool
  options :: "string list option"

record FormSchema =
  form_id :: string
  form_name :: string
  form_fields :: "FormField list"

text \<open>
  A cell of a row is a primitive value or a reference to a \<open>Date\<close> object. \<open>Date\<close>
  objects are mutable and shared between a row and its shallow copy, so they live in a
  heap: a map from addresses to time values. A time value is the local time in
  milliseconds; the zone is taken to have a fixed offset (no daylight-saving jumps), so
  that the hour and the minute are read off the time value directly.
\<close>

datatype cell = Prim jsval | DateRef nat

type_synonym row = "string \<rightharpoonup> cell"

type_synonym heap = "nat \<Rightarrow> int"

definition getHours :: "int \<Rightarrow> int" where
  "getHours t = (t div 3600000) mod 24"

definition getMinutes :: "int \<Rightarrow> int" where
  "getMinutes t = (t div 60000) mod 60"

text \<open>\<open>d.setHours(h)\<close>: the hour field is replaced; an hour beyond 23 runs into the next day.\<close>

definition setHours :: "int \<Rightarrow> int \<Rightarrow> int" where
  "setHours t h = t - getHours t * 3600000 + h * 3600000"

text \<open>
  What the page is given from outside: the calendar readings of a \<open>Date\<close>
  (\<open>getFullYear\<close>, \<open>getMonth\<close>, \<open>getDate\<close>, as functions of the time value), the two
  write operations of the document store (\<open>None\<close> when the call throws), over an opaque
  store state, and the signed-in user's id (\<open>currentUser?.uid\<close>).
\<close>

record newSubmission =
  formId :: string
  formName :: string
  row_data :: row
  submittedBy :: "string option"

record 'st services =
  getFullYear :: "int \<Rightarrow> int"
  getMonth :: "int \<Rightarrow> int"
  getDate :: "int \<Rightarrow> int"
  addDoc :: "'st \<Rightarrow> newSubmission \<Rightarrow> 'st option"
  updateDoc :: "'st \<Rightarrow> string \<Rightarrow> row \<Rightarrow> 'st option"
  uid :: "string option"

subsection \<open>Normalisation of date and time cells\<close>

text \<open>
  The body of \<open>selectedForm.fields.forEach\<close> in \<open>handleFileUpload\<close>. \<open>processedRow\<close> is
  the shallow copy \<open>{ ...row }\<close>: it holds the same \<open>Date\<close> references as \<open>row\<close>.
  \<open>dateVal.setHours\<close> writes to the object in the heap. In the \<open>time\<close> branch the source
  reads \<open>row[field.name]\<close> again; it is the same \<open>Date\<close> there (lemmas
  \<open>format_field_inv\<close> and \<open>row_inv_DateRef\<close> below), so the other case of the model
  is never taken.
\<close>

definition format_field :: "'st services \<Rightarrow> row \<Rightarrow> FormField \<Rightarrow> row \<times> heap \<Rightarrow> row \<times> heap" where
  "format_field env row field = (\<lambda>(processedRow, h).
     case processedRow (name field) of
       Some (DateRef dateVal) \<Rightarrow>
         (let h' = h(dateVal := setHours (h dateVal) (getHours (h dateVal) + 12))
          in if ftype field = FDate then
               (let year = String_int (getFullYear env (h' dateVal));
                    month = padStart2 (String_int (getMonth env (h' dateVal) + 1));
                    day = padStart2 (String_int (getDate env (h' dateVal)))
                in (processedRow(name field \<mapsto> Prim (JStr (year @ ''-'' @ month @ ''-'' @ day))), h'))
             else if ftype field = FTime then
               (case row (name field) of
                  Some (DateRef originalDate) \<Rightarrow>
                    (let hours = padStart2 (String_int (getHours (h' originalDate)));
                         minutes = padStart2 (String_int (getMinutes (h' originalDate)))
                     in (processedRow(name field \<mapsto> Prim (JStr (hours @ '':'' @ minutes))), h'))
                | _ \<Rightarrow> (processedRow, h'))
             else (processedRow, h'))
     | _ \<Rightarrow> (processedRow, h))"

definition normalize_row :: "'st services \<Rightarrow> FormSchema \<Rightarrow> row \<Rightarrow> heap \<Rightarrow> row \<times> heap" where
  "normalize_row env form row h = fold (format_field env row) (form_fields form) (row, h)"

text \<open>
  How the processed copy relates to the row while the fields are visited: a cell is
  as in the row, or the row has a \<open>Date\<close> there and the copy a non-empty string.
\<close>

definition row_inv :: "row \<Rightarrow> row \<Rightarrow> bool" where
  "row_inv row p =
     (\<forall>k. p k = row k \<or>
          (\<exists>a s. row k = Some (DateRef a) \<and> p k = Some (Prim (JStr s)) \<and> s \<noteq> []))"

subsection \<open>Required fields\<close>

text \<open>Bulk import: \<open>v === undefined || v === null || v === ''\<close>.\<close>

fun is_blank :: "cell option \<Rightarrow> bool" where
  "is_blank None = True"
| "is_blank (Some (Prim JUndefined)) = True"
| "is_blank (Some (Prim JNull)) = True"
| "is_blank (Some (Prim (JStr s))) = (s = [])"
| "is_blank (Some _) = False"

definition missingRequired_import :: "FormSchema \<Rightarrow> row \<Rightarrow> bool" where
  "missingRequired_import form processedRow =
     list_ex (\<lambda>f. required f \<and> is_blank (processedRow (name f))) (form_fields form)"

text \<open>Manual entry: \<open>!formData[f.name]\<close>.\<close>

fun truthy_cell :: "cell option \<Rightarrow> bool" where
  "truthy_cell None = False"
| "truthy_cell (Some (Prim v)) = truthy v"
| "truthy_cell (Some (DateRef a)) = True"

definition missingRequired_manual :: "FormSchema \<Rightarrow> row \<Rightarrow> bool" where
  "missingRequired_manual form formData =
     list_ex (\<lambda>f. required f \<and> \<not> truthy_cell (formData (name f))) (form_fields form)"

subsection \<open>Manual entry\<close>

text \<open>
  \<open>handleSubmit\<close>: the check, then an update of the edited document (\<open>if (editingId)\<close>:
  neither \<open>null\<close> nor empty) or a new document. The outcome is the error shown to the
  user or the store after the write; the page's own list of submissions and the reset of
  the input row are display state and are left out.
\<close>

datatype submit_error = MissingRequiredField | SaveFailed

definition handleSubmit :: "'st services \<Rightarrow> FormSchema \<Rightarrow> row \<Rightarrow> string option \<Rightarrow> 'st \<Rightarrow> submit_error + 'st" where
  "handleSubmit env form formData editingId st =
     (if missingRequired_manual form formData then Inl MissingRequiredField
      else (let submissionData = \<lparr>formId = form_id form, formName = form_name form,
                                   row_data = formData, submittedBy = uid env\<rparr>;
                create = (case addDoc env st submissionData of
                            None \<Rightarrow> Inl SaveFailed | Some st' \<Rightarrow> Inr st')
            in case editingId of
                 None \<Rightarrow> create
               | Some i \<Rightarrow>
                   if i \<noteq> [] then
                     (case updateDoc env st i formData of
                        None \<Rightarrow> Inl SaveFailed | Some st' \<Rightarrow> Inr st')
                   else create))"

subsection \<open>Bulk import\<close>

text \<open>
  The state of an import: the store, the heap of \<open>Date\<close> objects, the two counters, and
  the chunks handed to \<open>Promise.all\<close> so far, in order.
\<close>

record 'st import_state =
  store :: 'st
  dates :: heap
  successCount :: nat
  errorCount :: nat
  dispatched :: "row list list"

text \<open>
  The callback of \<open>chunk.map\<close> for one row. The callbacks of a chunk run in row order up
  to their call of \<open>addDoc\<close>; the writes of a chunk then complete in no fixed order. The
  model completes them in row order; the counters do not depend on the order.
\<close>

definition process_row :: "'st services \<Rightarrow> FormSchema \<Rightarrow> row \<Rightarrow> 'st import_state \<Rightarrow> 'st import_state" where
  "process_row env form row st =
     (let (processedRow, h') = normalize_row env form row (dates st);
          st1 = st\<lparr>dates := h'\<rparr>
      in if missingRequired_import form processedRow then st1\<lparr>errorCount := errorCount st1 + 1\<rparr>
         else (let newSub = \<lparr>formId = form_id form, formName = form_name form,
                              row_data = processedRow, submittedBy = uid env\<rparr>
               in case addDoc env (store st1) newSub of
                    Some store' \<Rightarrow> st1\<lparr>store := store', successCount := successCount st1 + 1\<rparr>
                  | None \<Rightarrow> st1\<lparr>errorCount := errorCount st1 + 1\<rparr>))"

text \<open>\<open>xs.slice(i, j)\<close> for \<open>0 \<le> i \<le> j\<close>.\<close>

definition slice :: "'a list \<Rightarrow> nat \<Rightarrow> nat \<Rightarrow> 'a list" where
  "slice xs i j = take (j - i) (drop i xs)"

definition batchSize :: nat where
  "batchSize = 400"

text \<open>The loop \<open>for (let i = 0; i < data.length; i += batchSize)\<close>, entered at index \<open>i\<close>.\<close>

function batch_loop :: "'st services \<Rightarrow> FormSchema \<Rightarrow> row list \<Rightarrow> nat \<Rightarrow> 'st import_state \<Rightarrow> 'st import_state" where
  "batch_loop env form rows i st =
     (if i < length rows then
        (let chunk = slice rows i (i + batchSize);
             st' = fold (process_row env form) chunk (st\<lparr>dispatched := dispatched st @ [chunk]\<rparr>)
         in batch_loop env form rows (i + batchSize) st')
      else st)"
  by pat_completeness auto
termination
  by (relation "measure (\<lambda>(env, form, rows, i, st). length rows - i)") (auto simp: batchSize_def)

declare batch_loop.simps [simp del]

text \<open>The chunks that the loop takes from \<open>rows\<close> when entered at index \<open>i\<close>.\<close>

function chunks_from :: "'a list \<Rightarrow> nat \<Rightarrow> 'a list list" where
  "chunks_from rows i =
     (if i < length rows then slice rows i (i + batchSize) # chunks_from rows (i + batchSize)
      else [])"
  by pat_completeness auto
termination
  by (relation "measure (\<lambda>(rows, i). length rows - i)") (auto simp: batchSize_def)

declare chunks_from.simps [simp del]

text \<open>
  \<open>handleFileUpload\<close> from the parsed rows on: the error for an empty sheet, or the two
  counts of the completion message; with it, the state the import leaves behind.
\<close>

datatype import_error = EmptyImport

definition handleFileUpload :: "'st services \<Rightarrow> FormSchema \<Rightarrow> row list \<Rightarrow> 'st \<Rightarrow> heap \<Rightarrow> (import_error + nat \<times> nat) \<times> 'st import_state" where
  "handleFileUpload env form rows st h =
     (let st0 = \<lparr>store = st, dates = h, successCount = 0, errorCount = 0, dispatched = []\<rparr>
      in if length rows = 0 then (Inl EmptyImport, st0)
         else (let st' = batch_loop env form rows 0 st0
               in (Inr (successCount st', errorCount st'), st')))"

text \<open>
  Services for evaluating examples: the store is the list of documents written so far
  and every write succeeds; the calendar is that of January 1970 (time values of the
  first 31 days).
\<close>

definition example_services :: "newSubmission list services" where
  "example_services =
     \<lparr>getFullYear = (\<lambda>t. 1970),
      getMonth = (\<lambda>t. 0),
      getDate = (\<lambda>t. t div 86400000 + 1),
      addDoc = (\<lambda>st d. Some (st @ [d])),
      updateDoc = (\<lambda>st i r. Some st),
      uid = Some ''u1''\<rparr>"

definition no_dates :: heap where
  "no_dates = (\<lambda>a. 0)"

section \<open>Viewport: zoom and pan\<close>

lemma handleWheel_clamp:
  "yDomain (handleWheel (y # rest) d st) = (Num lo, Num hi) \<Longrightarrow>
   hi - lo \<le> Math_max y rest * (11 / 10)"
  by (auto simp: handleWheel_def Let_def split: bound.splits)

lemma zoom_inv_step:
  "zoom_inv (Math_max y rest * (11 / 10)) st \<Longrightarrow>
   zoom_inv (Math_max y rest * (11 / 10)) (handleWheel (y # rest) d st)"
  by (auto simp: zoom_inv_def handleWheel_def Let_def split: bound.splits)

lemma zoom_inv_ticks:
  "zoom_inv (Math_max y rest * (11 / 10)) st \<Longrightarrow>
   zoom_inv (Math_max y rest * (11 / 10)) (wheel_ticks (y # rest) ds st)"
  unfolding wheel_ticks_def
proof (induction ds arbitrary: st)
  case Nil
  then show ?case by (simp only: fold.simps id_apply)
next
  case (Cons d ds)
  from Cons.prems have "zoom_inv (Math_max y rest * (11 / 10)) (handleWheel (y # rest) d st)"
    by (rule zoom_inv_step)
  then have "zoom_inv (Math_max y rest * (11 / 10))
               (fold (handleWheel (y # rest)) ds (handleWheel (y # rest) d st))"
    by (rule Cons.IH)
  then show ?case by (simp only: fold.simps o_apply)
qed





section \<open>Bulk import: batches\<close>

lemma dispatched_process_row: "dispatched (process_row env form row st) = dispatched st"
  by (simp add: process_row_def Let_def split: prod.splits option.splits)

lemma dispatched_fold_process_row:
  "dispatched (fold (process_row env form) chunk st) = dispatched st"
  by (induction chunk arbitrary: st) (simp_all add: dispatched_process_row)

lemma dispatched_batch_loop:
  "dispatched (batch_loop env form rows i st) = dispatched st @ chunks_from rows i"
proof (induction env form rows i st rule: batch_loop.induct)
  case (1 env form rows i st)
  show ?case
  proof (cases "i < length rows")
    case True
    then show ?thesis
      using "1.IH" [OF True refl refl]
      by (subst batch_loop.simps, subst chunks_from.simps)
         (simp add: Let_def dispatched_fold_process_row)
  next
    case False
    then show ?thesis
      by (subst batch_loop.simps, subst chunks_from.simps) simp
  qed
qed

lemma concat_chunks_from: "concat (chunks_from rows i) = drop i rows"
proof (induction rows i rule: chunks_from.induct)
  case (1 rows i)
  show ?case
  proof (cases "i < length rows")
    case True
    have "concat (chunks_from rows i) = slice rows i (i + batchSize) @ drop (i + batchSize) rows"
      using "1.IH" [OF True] True by (subst chunks_from.simps) simp
    also have "\<dots> = take batchSize (drop i rows) @ drop batchSize (drop i rows)"
      by (simp add: slice_def add.commute)
    also have "\<dots> = drop i rows" by (rule append_take_drop_id)
    finally show ?thesis .
  next
    case False
    then show ?thesis by (subst chunks_from.simps) simp
  qed
qed

lemma batchSize_pos: "0 < batchSize"
  by (simp add: batchSize_def)

lemma ceil_step:
  assumes "i < n" and "0 < (b::nat)"
  shows "Suc ((n - (i + b) + (b - 1)) div b) = (n - i + (b - 1)) div b"
proof (cases "i + b \<le> n")
  case True
  then have e: "n - i + (b - 1) = (n - (i + b) + (b - 1)) + b" by arith
  have "(n - i + (b - 1)) div b = ((n - (i + b) + (b - 1)) + b) div b" by (simp only: e)
  also have "\<dots> = (n - (i + b) + (b - 1)) div b + 1"
    using assms(2) by (intro div_add_self2) simp
  finally show ?thesis by (simp only: Suc_eq_plus1)
next
  case False
  then have z: "n - (i + b) = 0" by simp
  have e: "n - i + (b - 1) = (n - i - 1) + b" using assms by arith
  have l: "n - i - 1 < b" using False assms by arith
  have "(n - i + (b - 1)) div b = Suc ((n - i - 1) div b)"
    unfolding e using assms(2) by simp
  with l z assms(2) show ?thesis by simp
qed

lemma length_chunks_from:
  "length (chunks_from rows i) = (length rows - i + (batchSize - 1)) div batchSize"
proof (induction rows i rule: chunks_from.induct)
  case (1 rows i)
  show ?case
  proof (cases "i < length rows")
    case True
    have "length (chunks_from rows i)
            = Suc ((length rows - (i + batchSize) + (batchSize - 1)) div batchSize)"
      using "1.IH" [OF True] True by (subst chunks_from.simps) simp
    also have "\<dots> = (length rows - i + (batchSize - 1)) div batchSize"
      using True batchSize_pos by (rule ceil_step)
    finally show ?thesis .
  next
    case False
    then show ?thesis using batchSize_pos by (subst chunks_from.simps) simp
  qed
qed

lemma chunks_from_Nil_iff: "chunks_from rows i = [] \<longleftrightarrow> \<not> i < length rows"
  by (subst chunks_from.simps) simp

lemma length_slice: "length (slice xs i (i + b)) = min b (length xs - i)"
  by (simp add: slice_def min.commute)

lemma full_chunks_from:
  "list_all (\<lambda>c. length c = batchSize) (butlast (chunks_from rows i))"
proof (induction rows i rule: chunks_from.induct)
  case (1 rows i)
  show ?case
  proof (cases "i < length rows")
    case True
    note IH = "1.IH" [OF True]
    show ?thesis
    proof (cases "i + batchSize < length rows")
      case True
      then have "chunks_from rows (i + batchSize) \<noteq> []" by (simp add: chunks_from_Nil_iff)
      with IH True \<open>i < length rows\<close> show ?thesis
        by (subst chunks_from.simps) (simp add: length_slice)
    next
      case False
      then have "chunks_from rows (i + batchSize) = []" by (simp add: chunks_from_Nil_iff)
      with \<open>i < length rows\<close> show ?thesis by (subst chunks_from.simps) simp
    qed
  next
    case False
    then show ?thesis by (subst chunks_from.simps) simp
  qed
qed

lemma last_chunks_from:
  "i < length rows \<Longrightarrow>
   length (last (chunks_from rows i))
     = (if (length rows - i) mod batchSize = 0 then batchSize else (length rows - i) mod batchSize)"
proof (induction rows i rule: chunks_from.induct)
  case (1 rows i)
  note lt = "1.prems"
  show ?case
  proof (cases "i + batchSize < length rows")
    case True
    then have ne: "chunks_from rows (i + batchSize) \<noteq> []" by (simp add: chunks_from_Nil_iff)
    have "length rows - i = (length rows - (i + batchSize)) + batchSize" using True by arith
    then have m: "(length rows - i) mod batchSize = (length rows - (i + batchSize)) mod batchSize"
      by (metis mod_add_self2)
    from "1.IH" [OF lt True] ne lt show ?thesis
      by (subst chunks_from.simps) (simp add: m)
  next
    case False
    then have e: "chunks_from rows (i + batchSize) = []" by (simp add: chunks_from_Nil_iff)
    have r: "0 < length rows - i" "length rows - i \<le> batchSize" using lt False by arith+
    have "length (last (chunks_from rows i)) = length rows - i"
      using lt e r by (subst chunks_from.simps) (simp add: length_slice)
    also have "\<dots> = (if (length rows - i) mod batchSize = 0 then batchSize
                       else (length rows - i) mod batchSize)"
    proof (cases "length rows - i = batchSize")
      case True
      then show ?thesis by simp
    next
      case False
      with r have "length rows - i < batchSize" by arith
      with r show ?thesis by simp
    qed
    finally show ?thesis .
  qed
qed

lemma chunks_850:
  assumes "length rows = 850"
  shows "map length (chunks_from rows 0) = [400, 400, 50]"
proof -
  have 1: "chunks_from rows 0 = slice rows 0 400 # chunks_from rows 400"
    using assms by (subst chunks_from.simps) (simp add: batchSize_def)
  have 2: "chunks_from rows 400 = slice rows 400 800 # chunks_from rows 800"
    using assms by (subst chunks_from.simps) (simp add: batchSize_def)
  have 3: "chunks_from rows 800 = slice rows 800 1200 # chunks_from rows 1200"
    using assms by (subst chunks_from.simps) (simp add: batchSize_def)
  have 4: "chunks_from rows 1200 = []"
    using assms by (subst chunks_from.simps) simp
  show ?thesis using assms by (simp add: 1 2 3 4 slice_def)
qed

lemma dispatched_handleFileUpload:
  "rows \<noteq> [] \<Longrightarrow> dispatched (snd (handleFileUpload env form rows st h)) = chunks_from rows 0"
  by (simp add: handleFileUpload_def Let_def dispatched_batch_loop)

text \<open>
  Claim C5. For a non-empty list of \<open>n\<close> parsed rows the chunks dispatched by the
  import are consecutive pieces of the list, in order (their concatenation is the list);
  there are \<open>ceil(n / 400)\<close> of them; every chunk but the last has exactly \<open>400\<close>
  rows, and the last has \<open>n mod 400\<close> rows, or \<open>400\<close> when \<open>n\<close> is a multiple of
  \<open>400\<close>. An import of \<open>850\<close> rows is dispatched as chunks of \<open>400, 400, 50\<close> rows.
\<close>

theorem import_batches:
  assumes "rows \<noteq> []"
  shows "concat (dispatched (snd (handleFileUpload env form rows st h))) = rows \<and>
         length (dispatched (snd (handleFileUpload env form rows st h)))
           = (length rows + 399) div 400 \<and>
         list_all (\<lambda>c. length c = 400)
           (butlast (dispatched (snd (handleFileUpload env form rows st h)))) \<and>
         length (last (dispatched (snd (handleFileUpload env form rows st h))))
           = (if length rows mod 400 = 0 then 400 else length rows mod 400) \<and>
         (length rows = 850 \<longrightarrow>
            map length (dispatched (snd (handleFileUpload env form rows st h))) = [400, 400, 50])"
proof -
  have d: "dispatched (snd (handleFileUpload env form rows st h)) = chunks_from rows 0"
    using assms by (rule dispatched_handleFileUpload)
  have pos: "0 < length rows" using assms by simp
  have 1: "concat (chunks_from rows 0) = rows"
    by (simp add: concat_chunks_from)
  have 2: "length (chunks_from rows 0) = (length rows + 399) div 400"
    by (simp add: length_chunks_from batchSize_def)
  have 3: "list_all (\<lambda>c. length c = 400) (butlast (chunks_from rows 0))"
    using full_chunks_from [of rows 0] by (simp add: batchSize_def)
  have 4: "length (last (chunks_from rows 0))
             = (if length rows mod 400 = 0 then 400 else length rows mod 400)"
    using last_chunks_from [OF pos] by (simp add: batchSize_def)
  have 5: "length rows = 850 \<longrightarrow> map length (chunks_from rows 0) = [400, 400, 50]"
    by (simp add: chunks_850)
  from 1 2 3 4 5 show ?thesis unfolding d by blast
qed

theorem import_batches_witness:
  "replicate 850 (Map.empty :: row) \<noteq> [] \<and>
   length (replicate 850 (Map.empty :: row)) = 850 \<and>
   map length (dispatched (snd (handleFileUpload example_services
       \<lparr>form_id = ''f'', form_name = ''F'', form_fields = []\<rparr>
       (replicate 850 Map.empty) [] no_dates))) = [400, 400, 50] \<and>
   length (dispatched (snd (handleFileUpload example_services
       \<lparr>form_id = ''f'', form_name = ''F'', form_fields = []\<rparr>
       (replicate 850 Map.empty) [] no_dates))) = 3"
  using import_batches [of "replicate 850 (Map.empty :: row)" example_services
      "\<lparr>form_id = ''f'', form_name = ''F'', form_fields = []\<rparr>" "[]" no_dates]
  by simp

text \<open>
  Claim C7. On an empty list of parsed rows the import reports \<open>EmptyImport\<close> and
  leaves everything as it was: the store and the \<open>Date\<close> objects are unchanged (no
  write, no normalisation), no chunk is dispatched and both counters are zero.
\<close>

theorem empty_import:
  "handleFileUpload env form [] st h =
     (Inl EmptyImport,
      \<lparr>store = st, dates = h, successCount = 0, errorCount = 0, dispatched = []\<rparr>)"
  by (simp add: handleFileUpload_def)

section \<open>Row validation and normalisation\<close>

lemma String_nat_digit: "n < 10 \<Longrightarrow> String_nat n = [digit_char n]"
  by (subst String_nat.simps) simp

lemma String_nat_2:
  "10 \<le> n \<Longrightarrow> n < 100 \<Longrightarrow> String_nat n = [digit_char (n div 10), digit_char (n mod 10)]"
  by (subst String_nat.simps) (simp add: String_nat_digit)

lemma row_inv_refl: "row_inv row row"
  by (simp add: row_inv_def)

lemma row_inv_DateRef: "row_inv row p \<Longrightarrow> p k = Some (DateRef a) \<Longrightarrow> row k = Some (DateRef a)"
  unfolding row_inv_def by (metis cell.distinct(1) option.inject)

lemma row_inv_upd:
  "row_inv row p \<Longrightarrow> p k = Some (DateRef a) \<Longrightarrow> s \<noteq> [] \<Longrightarrow> row_inv row (p(k \<mapsto> Prim (JStr s)))"
  unfolding row_inv_def by (metis fun_upd_apply)

lemma format_field_inv:
  assumes "row_inv row p"
  shows "row_inv row (fst (format_field env row f (p, h)))"
proof (cases "p (name f)")
  case None
  with assms show ?thesis by (simp add: format_field_def)
next
  case (Some c)
  show ?thesis
  proof (cases c)
    case (Prim v)
    with Some assms show ?thesis by (simp add: format_field_def)
  next
    case (DateRef a)
    with Some have pa: "p (name f) = Some (DateRef a)" by simp
    with assms have ra: "row (name f) = Some (DateRef a)" by (rule row_inv_DateRef)
    show ?thesis
      using assms pa ra
      by (auto simp: format_field_def Let_def intro!: row_inv_upd)
  qed
qed

lemma fold_format_field_inv:
  "row_inv row (fst ph) \<Longrightarrow> row_inv row (fst (fold (format_field env row) fs ph))"
proof (induction fs arbitrary: ph)
  case Nil
  then show ?case by simp
next
  case (Cons f fs)
  obtain p h where ph: "ph = (p, h)" by (cases ph)
  with Cons.prems have "row_inv row (fst (format_field env row f ph))"
    by (simp add: format_field_inv)
  then show ?case using Cons.IH by simp
qed

lemma normalize_row_inv: "row_inv row (fst (normalize_row env form row h))"
  unfolding normalize_row_def by (rule fold_format_field_inv) (simp add: row_inv_refl)

lemma is_blank_inv:
  assumes "row_inv row p"
  shows "is_blank (p k) = is_blank (row k)"
proof -
  from assms consider "p k = row k"
    | a s where "row k = Some (DateRef a)" and "p k = Some (Prim (JStr s))" and "s \<noteq> []"
    unfolding row_inv_def by blast
  then show ?thesis by cases simp_all
qed

lemma bulk_required_exact:
  "missingRequired_import form (fst (normalize_row env form row h))
     = list_ex (\<lambda>f. required f \<and> is_blank (row (name f))) (form_fields form)"
  by (simp add: missingRequired_import_def is_blank_inv [OF normalize_row_inv])

lemma bulk_missing_counted:
  assumes "list_ex (\<lambda>f. required f \<and> is_blank (row (name f))) (form_fields form)"
  shows "errorCount (process_row env form row st) = errorCount st + 1 \<and>
         successCount (process_row env form row st) = successCount st \<and>
         store (process_row env form row st) = store st"
proof -
  obtain p h' where n: "normalize_row env form row (dates st) = (p, h')"
    by (cases "normalize_row env form row (dates st)")
  have "missingRequired_import form (fst (normalize_row env form row (dates st)))"
    using assms by (simp add: bulk_required_exact)
  with n have "missingRequired_import form p" by simp
  with n show ?thesis by (simp add: process_row_def)
qed

lemma getHours_setHours: "getHours (setHours t (getHours t + 12)) = (getHours t + 12) mod 24"
proof -
  have s: "setHours t (getHours t + 12) = t + 12 * 3600000"
    by (simp add: setHours_def algebra_simps)
  have d: "(t + 12 * 3600000) div 3600000 = t div 3600000 + 12" by simp
  have m: "(x + 12) mod 24 = (x mod 24 + 12) mod 24" for x :: int
    by (simp add: mod_simps)
  have "getHours (t + 12 * 3600000) = (getHours t + 12) mod 24"
    unfolding getHours_def d by (rule m)
  then show ?thesis by (simp only: s)
qed

lemma getMinutes_setHours: "getMinutes (setHours t (getHours t + 12)) = getMinutes t"
proof -
  have s: "setHours t (getHours t + 12) = t + 720 * 60000"
    by (simp add: setHours_def algebra_simps)
  have d: "(t + 720 * 60000) div 60000 = t div 60000 + 720" by simp
  have m: "(x + 720) mod 60 = x mod 60" for x :: int
    using mod_mult_self1 [of x 12 60] by simp
  have "getMinutes (t + 720 * 60000) = getMinutes t"
    unfolding getMinutes_def d by (rule m)
  then show ?thesis by (simp only: s)
qed

lemma time_field_shifted:
  assumes "ftype f = FTime" and "row (name f) = Some (DateRef a)"
  shows "fst (normalize_row env \<lparr>form_id = i, form_name = n, form_fields = [f]\<rparr> row h) (name f)
     = Some (Prim (JStr (padStart2 (String_int ((getHours (h a) + 12) mod 24)) @ '':''
                           @ padStart2 (String_int (getMinutes (h a))))))"
  using assms
  by (simp add: normalize_row_def format_field_def Let_def getHours_setHours getMinutes_setHours)

text \<open>
  Claim C2 asks that a \<open>time\<close> field be rendered from the parsed instant, not from the
  instant shifted by 12 hours. In the code the copy \<open>processedRow\<close> shares its \<open>Date\<close>
  objects with \<open>row\<close>, so \<open>setHours\<close> has already moved the object that the \<open>time\<close>
  branch reads again (lemma \<open>time_field_shifted\<close>). Here: a row whose \<open>time\<close> field
  \<open>T\<close> holds a \<open>Date\<close> at 09:30 is normalised to \<open>21:30\<close>, and a \<open>date\<close> field
  holding midnight of 5 January 1970 to \<open>1970-01-05\<close>.
\<close>

theorem time_cell_shifted:
  "getHours 34200000 = 9 \<and> getMinutes 34200000 = 30 \<and>
   fst (normalize_row example_services
          \<lparr>form_id = ''f'', form_name = ''F'',
           form_fields = [\<lparr>field_id = ''1'', name = ''T'', ftype = FTime,
                           required = True, options = None\<rparr>]\<rparr>
          [''T'' \<mapsto> DateRef 0] (no_dates(0 := 34200000))) ''T''
     = Some (Prim (JStr ''21:30'')) \<and>
   fst (normalize_row example_services
          \<lparr>form_id = ''f'', form_name = ''F'',
           form_fields = [\<lparr>field_id = ''1'', name = ''D'', ftype = FDate,
                           required = True, options = None\<rparr>]\<rparr>
          [''D'' \<mapsto> DateRef 0] (no_dates(0 := 345600000))) ''D''
     = Some (Prim (JStr ''1970-01-05''))"
  by (simp add: normalize_row_def format_field_def getHours_def getMinutes_def setHours_def
      Let_def padStart2_def String_int_def String_nat_2 String_nat_digit digit_char_def
      example_services_def String_nat.simps [of 1970] String_nat.simps [of 197]
      String_nat.simps [of 19])

text \<open>
  Claim C6 asks that both paths report a missing required field exactly when the value
  is absent, \<open>null\<close> or the empty string. The bulk import does (lemmas
  \<open>bulk_required_exact\<close> and \<open>bulk_missing_counted\<close>); manual entry tests \<open>!value\<close>.
  Here: with a required field \<open>Score\<close> holding the number \<open>0\<close> (a row loaded for
  editing), \<open>handleSubmit\<close> reports \<open>MissingRequiredField\<close>, although the value is none
  of the three, and the bulk import of the same row stores it and counts one success.
\<close>

theorem manual_zero_rejected:
  "handleSubmit example_services
      \<lparr>form_id = ''f'', form_name = ''F'',
       form_fields = [\<lparr>field_id = ''1'', name = ''Score'', ftype = FNumber,
                       required = True, options = None\<rparr>]\<rparr>
      [''Score'' \<mapsto> Prim (JNum 0)] (Some ''doc1'') [] = Inl MissingRequiredField \<and>
   \<not> is_blank ([''Score'' \<mapsto> Prim (JNum 0)] ''Score'') \<and>
   fst (handleFileUpload example_services
      \<lparr>form_id = ''f'', form_name = ''F'',
       form_fields = [\<lparr>field_id = ''1'', name = ''Score'', ftype = FNumber,
                       required = True, options = None\<rparr>]\<rparr>
      [[''Score'' \<mapsto> Prim (JNum 0)]] [] no_dates) = Inr (1, 0)"
  by (simp add: handleSubmit_def missingRequired_manual_def handleFileUpload_def
      batch_loop.simps [of _ _ _ 0] batch_loop.simps [of _ _ _ 400] batchSize_def slice_def
      process_row_def normalize_row_def format_field_def missingRequired_import_def
      example_services_def Let_def)

section \<open>Aggregation: the Pareto transform\<close>

lemma or_0_simps [simp]: "or_0 None = 0" "or_0 (Some r) = r"
  by (simp_all add: or_0_def)

lemma or_0_add_to_group:
  "or_0 (map_of (add_to_group rt config sub g) k)
     = or_0 (map_of g k) + (if pareto_key rt config sub = k then yValue rt config sub else 0)"
  by (simp add: add_to_group_def Let_def update_conv')

lemma or_0_fold_add_to_group:
  "or_0 (map_of (fold (add_to_group rt config) subs g) k)
     = or_0 (map_of g k) + group_sum rt config subs k"
proof (induction subs arbitrary: g)
  case Nil
  then show ?case by (simp add: group_sum_def)
next
  case (Cons s subs)
  show ?case
    by (simp add: Cons.IH or_0_add_to_group group_sum_def)
qed

lemma keys_add_to_group:
  "fst ` set (add_to_group rt config sub g) = insert (pareto_key rt config sub) (fst ` set g)"
  by (simp add: add_to_group_def Let_def dom_update)

lemma keys_fold_add_to_group:
  "fst ` set (fold (add_to_group rt config) subs g)
     = fst ` set g \<union> pareto_key rt config ` set subs"
  by (induction subs arbitrary: g) (auto simp: keys_add_to_group)

lemma distinct_add_to_group:
  "distinct (map fst g) \<Longrightarrow> distinct (map fst (add_to_group rt config sub g))"
  by (simp add: add_to_group_def Let_def distinct_update)

lemma distinct_fold_add_to_group:
  "distinct (map fst g) \<Longrightarrow> distinct (map fst (fold (add_to_group rt config) subs g))"
  by (induction subs arbitrary: g) (simp_all add: distinct_add_to_group)

lemma grouped_of_keys:
  "fst ` set (grouped_of rt subs config) = pareto_key rt config ` set subs"
  by (simp add: grouped_of_def keys_fold_add_to_group)

lemma grouped_of_distinct: "distinct (map fst (grouped_of rt subs config))"
  by (simp add: grouped_of_def distinct_fold_add_to_group)

lemma grouped_of_value:
  assumes "(k, v) \<in> set (grouped_of rt subs config)"
  shows "v = group_sum rt config subs k"
proof -
  from assms have "map_of (grouped_of rt subs config) k = Some v"
    by (simp add: grouped_of_distinct)
  then have "or_0 (map_of (fold (add_to_group rt config) subs []) k) = v"
    by (simp add: grouped_of_def)
  then show ?thesis by (simp add: or_0_fold_add_to_group)
qed

lemma mset_Object_entries: "mset (Object_entries obj) = mset obj"
  by (simp add: Object_entries_def)

lemma mset_sorted_entries:
  "mset (sort_key (\<lambda>e. - snd e) (Object_entries obj)) = mset obj"
  by (simp add: mset_Object_entries)

lemma foldl_sum: "foldl (\<lambda>sum item. sum + snd item) a xs = a + sum_list (map snd xs)"
  for a :: rat
  by (induction xs arbitrary: a) (simp_all add: add.assoc)

lemma cumulate_names: "map item_name (cumulate t tgt c items) = map fst items"
  by (induction items arbitrary: c) (simp_all add: Let_def)

lemma cumulate_values: "map item_value (cumulate t tgt c items) = map snd items"
  by (induction items arbitrary: c) (simp_all add: Let_def)

lemma length_cumulate: "length (cumulate t tgt c items) = length items"
  by (induction items arbitrary: c) (simp_all add: Let_def)

lemma cumulate_nth:
  "i < length items \<Longrightarrow>
   cumulativePercentage (cumulate t tgt c items ! i)
     = percent_of (c + sum_list (take (Suc i) (map snd items))) t"
proof (induction items arbitrary: c i)
  case Nil
  then show ?case by simp
next
  case (Cons item items)
  show ?case
  proof (cases i)
    case 0
    then show ?thesis by (simp add: Let_def)
  next
    case (Suc j)
    with Cons.prems have "j < length items" by simp
    from Cons.IH [OF this] show ?thesis by (simp add: Suc Let_def add.assoc)
  qed
qed

lemma cumulate_member:
  "p \<in> set (cumulate t tgt c items) \<Longrightarrow> (item_name p, item_value p) \<in> set items"
  by (induction items arbitrary: c) (auto simp: Let_def)

lemma sorted_map_uminus: "sorted (map (\<lambda>e. - snd e) xs) = sorted (rev (map snd xs))"
  for xs :: "('a \<times> rat) list"
  by (simp add: sorted_map sorted_wrt_rev sorted_wrt_map)

lemma percent_of_total: "t \<noteq> 0 \<Longrightarrow> percent_of t t = Percent 100"
  by (simp add: percent_of_def Math_round_def floor_eq_iff)

lemma pareto_eq:
  "pareto rt subs config
     = cumulate (sum_list (map snd (sorted_groups rt subs config))) (target config) 0
         (sorted_groups rt subs config)"
  by (simp add: pareto_def sorted_groups_def Let_def foldl_sum)

lemma mset_sorted_groups: "mset (sorted_groups rt subs config) = mset (grouped_of rt subs config)"
  by (simp add: sorted_groups_def mset_Object_entries)

lemma set_sorted_groups: "set (sorted_groups rt subs config) = set (grouped_of rt subs config)"
  using mset_sorted_groups by (rule mset_eq_setD)

lemma pareto_names: "map item_name (pareto rt subs config) = map fst (sorted_groups rt subs config)"
  by (simp add: pareto_eq cumulate_names)

lemma pareto_values: "map item_value (pareto rt subs config) = map snd (sorted_groups rt subs config)"
  by (simp add: pareto_eq cumulate_values)

lemma pareto_length: "length (pareto rt subs config) = length (grouped_of rt subs config)"
  using mset_eq_length [OF mset_sorted_groups] by (simp add: pareto_eq length_cumulate)

lemma pareto_nonempty: "subs \<noteq> [] \<Longrightarrow> pareto rt subs config \<noteq> []"
proof -
  assume "subs \<noteq> []"
  then have "fst ` set (grouped_of rt subs config) \<noteq> {}" by (simp add: grouped_of_keys)
  then have "grouped_of rt subs config \<noteq> []" by auto
  then show ?thesis using pareto_length [of rt subs config] by auto
qed

lemma pareto_distinct: "distinct (map item_name (pareto rt subs config))"
proof -
  have "mset (map fst (sorted_groups rt subs config)) = mset (map fst (grouped_of rt subs config))"
    by (simp add: mset_sorted_groups)
  then have "distinct (map fst (sorted_groups rt subs config))
               = distinct (map fst (grouped_of rt subs config))"
    by (rule mset_eq_imp_distinct_iff)
  then show ?thesis by (simp add: pareto_names grouped_of_distinct)
qed

lemma pareto_name_set:
  "set (map item_name (pareto rt subs config)) = pareto_key rt config ` set subs"
  by (simp add: pareto_names set_sorted_groups grouped_of_keys)

lemma pareto_item_value:
  assumes "p \<in> set (pareto rt subs config)"
  shows "item_value p = group_sum rt config subs (item_name p)"
proof -
  from assms have "(item_name p, item_value p) \<in> set (sorted_groups rt subs config)"
    unfolding pareto_eq by (rule cumulate_member)
  then have "(item_name p, item_value p) \<in> set (grouped_of rt subs config)"
    by (simp add: set_sorted_groups)
  then show ?thesis by (rule grouped_of_value)
qed

lemma pareto_descending: "sorted (rev (map item_value (pareto rt subs config)))"
  by (simp add: pareto_values sorted_groups_def flip: sorted_map_uminus)

lemma pareto_percentage:
  assumes "i < length (pareto rt subs config)"
  shows "cumulativePercentage (pareto rt subs config ! i)
           = percent_of (sum_list (take (Suc i) (map item_value (pareto rt subs config))))
               (sum_list (map item_value (pareto rt subs config)))"
proof -
  from assms have "i < length (sorted_groups rt subs config)"
    by (simp add: pareto_eq length_cumulate)
  from cumulate_nth [OF this] show ?thesis
    by (simp add: pareto_values) (simp add: pareto_eq)
qed

lemma pareto_last:
  assumes "subs \<noteq> []" and "sum_list (map item_value (pareto rt subs config)) \<noteq> 0"
  shows "cumulativePercentage (last (pareto rt subs config)) = Percent 100"
proof -
  let ?ps = "pareto rt subs config"
  from assms(1) have ne: "?ps \<noteq> []" by (rule pareto_nonempty)
  then have l: "last ?ps = ?ps ! (length ?ps - 1)" by (rule last_conv_nth)
  from ne have i: "length ?ps - 1 < length ?ps" by simp
  from ne have "Suc (length ?ps - 1) = length ?ps" by simp
  then have "take (Suc (length ?ps - 1)) (map item_value ?ps) = map item_value ?ps" by simp
  with pareto_percentage [OF i] l assms(2) show ?thesis
    by (simp add: percent_of_total)
qed

lemma array_index_nondigit: "\<not> is_digit (hd s) \<Longrightarrow> array_index s = None"
  by (cases s) (simp_all add: array_index_def)

lemma pareto_abc:
  "pareto rt abc_submissions (cat_val_config Pareto)
     = [\<lparr>item_name = ''B'', item_value = 30, cumulativePercentage = Percent 60, item_target = None\<rparr>,
        \<lparr>item_name = ''A'', item_value = 20, cumulativePercentage = Percent 100, item_target = None\<rparr>]"
  by (simp add: pareto_def grouped_of_def abc_submissions_def cat_val_config_def add_to_group_def
      pareto_key_def yValue_def get_prop_def Let_def Object_entries_def array_index_nondigit
      is_digit_def percent_of_def Math_round_def floor_eq_iff)

lemma pareto_falsy:
  "pareto rt falsy_submissions (cat_val_config Pareto)
     = [\<lparr>item_name = ''Unknown'', item_value = 22, cumulativePercentage = Percent 100,
         item_target = None\<rparr>]"
  by (simp add: pareto_def grouped_of_def falsy_submissions_def cat_val_config_def add_to_group_def
      pareto_key_def yValue_def get_prop_def Let_def Object_entries_def array_index_nondigit
      is_digit_def percent_of_def Math_round_def floor_eq_iff)

lemma chartData_pareto:
  "ctype config = Pareto \<Longrightarrow> xAxis config \<noteq> [] \<Longrightarrow> yAxis config \<noteq> [] \<Longrightarrow> submissions \<noteq> [] \<Longrightarrow>
   chartData rt submissions config = map ParetoPoint (pareto rt submissions config)"
  by (simp add: chartData_def)



lemma falsy_iff:
  "(\<not> truthy v) = (v = JUndefined \<or> v = JNull \<or> v = JBool False \<or> v = JNum 0 \<or> v = JStr [])"
  by (cases v) auto

text \<open>
  Claim C10. In the Pareto transform a submission whose \<open>xAxis\<close> value is falsy
  (absent, \<open>null\<close>, \<open>false\<close>, the number \<open>0\<close> or the empty string) has the key
  \<open>"Unknown"\<close>; the output has exactly one point of that name, and its value is the sum
  over all submissions with that key. So the categories \<open>0\<close> and \<open>""\<close> do not form
  groups of their own: the six submissions with categories \<open>0\<close>, \<open>""\<close>, \<open>false\<close>,
  absent, \<open>null\<close> and \<open>"Unknown"\<close> give the single point \<open>Unknown: 22\<close>.
\<close>

theorem pareto_unknown:
  assumes "ctype config = Pareto" and "xAxis config \<noteq> []" and "yAxis config \<noteq> []"
    and "s \<in> set submissions"
    and "get_prop (data s) (xAxis config) \<in> {JUndefined, JNull, JBool False, JNum 0, JStr []}"
  shows "pareto_key rt config s = ''Unknown'' \<and>
     (\<exists>!p. p \<in> set (pareto rt submissions config) \<and> item_name p = ''Unknown'') \<and>
     (\<exists>p. ParetoPoint p \<in> set (chartData rt submissions config) \<and> item_name p = ''Unknown'' \<and>
          item_value p = group_sum rt config submissions ''Unknown'') \<and>
     chartData rt falsy_submissions (cat_val_config Pareto)
       = [ParetoPoint \<lparr>item_name = ''Unknown'', item_value = 22,
                       cumulativePercentage = Percent 100, item_target = None\<rparr>]"
proof -
  let ?ps = "pareto rt submissions config"
  from assms(5) have k: "pareto_key rt config s = ''Unknown''"
    by (auto simp: pareto_key_def Let_def)
  with assms(4) have "''Unknown'' \<in> set (map item_name ?ps)"
    unfolding pareto_name_set by (metis imageI)
  then obtain p where p: "p \<in> set ?ps" "item_name p = ''Unknown''" by auto
  have inj: "inj_on item_name (set ?ps)"
    using pareto_distinct [of rt submissions config] by (simp add: distinct_map)
  have u: "\<exists>!p. p \<in> set ?ps \<and> item_name p = ''Unknown''"
  proof (rule ex1I [of _ p])
    show "p \<in> set ?ps \<and> item_name p = ''Unknown''" using p by simp
  next
    fix q
    assume "q \<in> set ?ps \<and> item_name q = ''Unknown''"
    then have "q \<in> set ?ps" and "item_name q = item_name p" using p by simp_all
    with inj p(1) show "q = p" by (meson inj_onD)
  qed
  from assms(4) have ne: "submissions \<noteq> []" by auto
  have c: "chartData rt submissions config = map ParetoPoint ?ps"
    using assms(1-3) ne by (rule chartData_pareto)
  have v: "item_value p = group_sum rt config submissions ''Unknown''"
    using pareto_item_value [OF p(1)] p(2) by simp
  have e: "\<exists>p. ParetoPoint p \<in> set (chartData rt submissions config) \<and> item_name p = ''Unknown'' \<and>
          item_value p = group_sum rt config submissions ''Unknown''"
    using p v unfolding c by auto
  have x: "chartData rt falsy_submissions (cat_val_config Pareto)
       = [ParetoPoint \<lparr>item_name = ''Unknown'', item_value = 22,
                       cumulativePercentage = Percent 100, item_target = None\<rparr>]"
    by (simp add: chartData_def pareto_falsy) (simp add: cat_val_config_def falsy_submissions_def)
  from k u e x show ?thesis by blast
qed

theorem pareto_unknown_witness:
  "ctype (cat_val_config Pareto) = Pareto \<and> xAxis (cat_val_config Pareto) \<noteq> [] \<and>
   yAxis (cat_val_config Pareto) \<noteq> [] \<and>
   hd falsy_submissions \<in> set falsy_submissions \<and>
   get_prop (data (hd falsy_submissions)) (xAxis (cat_val_config Pareto)) = JNum 0 \<and>
   pareto_key example_runtime (cat_val_config Pareto) (hd falsy_submissions) = ''Unknown'' \<and>
   group_sum example_runtime (cat_val_config Pareto) falsy_submissions ''Unknown'' = 22 \<and>
   chartData example_runtime falsy_submissions (cat_val_config Pareto)
       = [ParetoPoint \<lparr>item_name = ''Unknown'', item_value = 22,
                       cumulativePercentage = Percent 100, item_target = None\<rparr>]"
  using pareto_unknown [of "cat_val_config Pareto" "hd falsy_submissions" falsy_submissions example_runtime]
  by (simp add: group_sum_def)
     (simp add: cat_val_config_def falsy_submissions_def pareto_key_def yValue_def get_prop_def)

section \<open>Aggregation: the histogram transform\<close>

lemma find_index_Some:
  "find_index P xs = Some i \<Longrightarrow> i < length xs \<and> P (xs ! i) \<and> (\<forall>j<i. \<not> P (xs ! j))"
proof (induction xs arbitrary: i)
  case Nil
  then show ?case by simp
next
  case (Cons x xs)
  show ?case
  proof (cases "P x")
    case True
    with Cons.prems show ?thesis by simp
  next
    case False
    with Cons.prems obtain k where k: "find_index P xs = Some k" "i = Suc k" by auto
    from Cons.IH [OF k(1)] False k(2) show ?thesis
      by (auto simp: nth_Cons split: nat.splits)
  qed
qed

lemma find_index_None: "find_index P xs = None \<longleftrightarrow> (\<forall>x \<in> set xs. \<not> P x)"
  by (induction xs) auto

lemma find_index_cong_map:
  "map P xs = map Q ys \<Longrightarrow> find_index P xs = find_index Q ys"
proof (induction xs arbitrary: ys)
  case Nil
  then show ?case by simp
next
  case (Cons x xs)
  then obtain y ys' where "ys = y # ys'" by (cases ys) auto
  with Cons show ?case by auto
qed

lemma bin_index_less: "bins \<noteq> [] \<Longrightarrow> bin_index v bins < length bins"
  by (auto simp: bin_index_def dest: find_index_Some split: option.splits)

lemma length_count_value [simp]: "length (count_value v bins) = length bins"
  by (simp add: count_value_def Let_def)

lemma nth_count_value:
  "i < length bins \<Longrightarrow>
   count_value v bins ! i
     = (if i = bin_index v bins then (bins ! i)\<lparr>bin_count := bin_count (bins ! i) + 1\<rparr>
        else bins ! i)"
  by (simp add: count_value_def Let_def)

lemma holds_count_update [simp]: "holds v (b\<lparr>bin_count := c\<rparr>) = holds v b"
  by (simp add: holds_def)

lemma map_holds_count_value: "map (holds w) (count_value v bins) = map (holds w) bins"
  by (rule nth_equalityI) (simp_all add: nth_count_value)

lemma bin_index_count_value [simp]: "bin_index w (count_value v bins) = bin_index w bins"
  using find_index_cong_map [OF map_holds_count_value [of w v bins]]
  by (simp add: bin_index_def split: option.splits)

lemma fold_count_value:
  "length (fold count_value vs bins) = length bins \<and>
   (\<forall>i < length bins.
      fold count_value vs bins ! i
        = (bins ! i)\<lparr>bin_count :=
             bin_count (bins ! i) + length (filter (\<lambda>v. bin_index v bins = i) vs)\<rparr>)"
proof (induction vs arbitrary: bins)
  case Nil
  then show ?case by simp
next
  case (Cons v vs)
  have "fold count_value (v # vs) bins = fold count_value vs (count_value v bins)" by simp
  with Cons.IH [of "count_value v bins"] show ?case
    by (auto simp: nth_count_value)
qed

lemma sum_count_value:
  assumes "bins \<noteq> []"
  shows "sum_list (map bin_count (count_value v bins)) = Suc (sum_list (map bin_count bins))"
proof -
  let ?i = "bin_index v bins"
  have i: "?i < length bins" using assms by (rule bin_index_less)
  have "map bin_count (count_value v bins) = (map bin_count bins)[?i := bin_count (bins ! ?i) + 1]"
    by (simp add: count_value_def Let_def map_update)
  moreover have "sum_list ((map bin_count bins)[?i := bin_count (bins ! ?i) + 1])
      = sum_list (map bin_count bins) + (bin_count (bins ! ?i) + 1) - map bin_count bins ! ?i"
    using i by (simp add: sum_list_update)
  ultimately show ?thesis using i by simp
qed

lemma sum_fold_count_value:
  "bins \<noteq> [] \<Longrightarrow>
   sum_list (map bin_count (fold count_value vs bins)) = sum_list (map bin_count bins) + length vs"
proof (induction vs arbitrary: bins)
  case Nil
  then show ?case by simp
next
  case (Cons v vs)
  from Cons.prems have "count_value v bins \<noteq> []"
    using length_count_value [of v bins] by (metis length_0_conv)
  from Cons.IH [OF this] Cons.prems show ?case by (simp add: sum_count_value)
qed

lemma upt_10: "[0..<10] = [0, 1, 2, 3, 4, 5, 6, 7, 8, 9]"
  by code_simp

lemma length_make_bins [simp]: "length (make_bins mn w tgt) = 10"
  by (simp add: make_bins_def binCount_def)

lemma nth_make_bins:
  "i < 10 \<Longrightarrow>
   make_bins mn w tgt ! i
     = \<lparr>bin_range = toFixed1 (mn + of_nat i * w) @ '' - '' @ toFixed1 (mn + of_nat i * w + w),
        bin_count = 0, bin_start = mn + of_nat i * w, bin_end = mn + of_nat i * w + w,
        bin_target = tgt\<rparr>"
  by (simp add: make_bins_def binCount_def Let_def)

lemma holds_make_bins:
  "i < 10 \<Longrightarrow>
   holds v (make_bins mn w tgt ! i) = (mn + of_nat i * w \<le> v \<and> v < mn + of_nat i * w + w)"
  by (simp add: nth_make_bins holds_def)

lemma holds_disjoint_less:
  assumes "0 < w" and "i < j" and "j < 10"
    and "holds v (make_bins mn w tgt ! i)"
  shows "\<not> holds v (make_bins mn w tgt ! j)"
proof -
  from assms(2) have "of_nat (Suc i) \<le> (of_nat j :: rat)" by (simp only: of_nat_le_iff)
  with assms(1) have "of_nat (Suc i) * w \<le> of_nat j * w" by (simp add: mult_right_mono)
  then have "mn + of_nat i * w + w \<le> mn + of_nat j * w" by (simp add: algebra_simps)
  moreover from assms have "v < mn + of_nat i * w + w" by (simp add: holds_make_bins)
  ultimately show ?thesis using assms(3) by (simp add: holds_make_bins)
qed

lemma holds_disjoint:
  assumes "0 < w" and "i < 10" and "j < 10"
    and "holds v (make_bins mn w tgt ! i)" and "holds v (make_bins mn w tgt ! j)"
  shows "i = j"
proof (rule ccontr)
  assume "i \<noteq> j"
  then consider "i < j" | "j < i" by arith
  then show False
  proof cases
    case 1
    from holds_disjoint_less [OF assms(1) 1 assms(3) assms(4)] assms(5) show False
      by blast
  next
    case 2
    from holds_disjoint_less [OF assms(1) 2 assms(2) assms(5)] assms(4) show False
      by blast
  qed
qed

lemma holds_exists:
  "k \<le> 10 \<Longrightarrow> mn \<le> v \<Longrightarrow> v < mn + of_nat k * w \<Longrightarrow> \<exists>j<k. holds v (make_bins mn w tgt ! j)"
proof (induction k)
  case 0
  then show ?case by simp
next
  case (Suc k)
  show ?case
  proof (cases "v < mn + of_nat k * w")
    case True
    with Suc obtain j where "j < k" "holds v (make_bins mn w tgt ! j)" by auto
    then show ?thesis by (auto intro: less_SucI)
  next
    case False
    with Suc.prems have "holds v (make_bins mn w tgt ! k)"
      by (simp add: holds_make_bins algebra_simps)
    then show ?thesis by auto
  qed
qed

lemma bin_index_make_bins:
  assumes "0 < w" and "i < 10"
  shows "bin_index v (make_bins mn w tgt) = i \<longleftrightarrow>
           holds v (make_bins mn w tgt ! i)
           \<or> (i = 9 \<and> (\<forall>j<10. \<not> holds v (make_bins mn w tgt ! j)))"
proof (cases "find_index (holds v) (make_bins mn w tgt)")
  case None
  then have n: "\<forall>j<10. \<not> holds v (make_bins mn w tgt ! j)"
    by (simp add: find_index_None all_set_conv_all_nth)
  from None have "bin_index v (make_bins mn w tgt) = 9" by (simp add: bin_index_def)
  with n assms(2) show ?thesis by auto
next
  case (Some k)
  from find_index_Some [OF Some] have k: "k < 10" "holds v (make_bins mn w tgt ! k)" by simp_all
  from Some have b: "bin_index v (make_bins mn w tgt) = k" by (simp add: bin_index_def)
  show ?thesis
  proof
    assume "bin_index v (make_bins mn w tgt) = i"
    with b k show "holds v (make_bins mn w tgt ! i)
           \<or> (i = 9 \<and> (\<forall>j<10. \<not> holds v (make_bins mn w tgt ! j)))" by simp
  next
    assume "holds v (make_bins mn w tgt ! i)
           \<or> (i = 9 \<and> (\<forall>j<10. \<not> holds v (make_bins mn w tgt ! j)))"
    with k have "holds v (make_bins mn w tgt ! i)" by auto
    with assms k have "i = k" by (intro holds_disjoint [of w i k v mn tgt])
    with b show "bin_index v (make_bins mn w tgt) = i" by simp
  qed
qed

lemma bin_index_inner:
  assumes "0 < w" and "i < 9"
  shows "bin_index v (make_bins mn w tgt) = i \<longleftrightarrow>
           mn + of_nat i * w \<le> v \<and> v < mn + of_nat i * w + w"
  using assms bin_index_make_bins [of w i v mn tgt] by (simp add: holds_make_bins)

lemma bin_index_last:
  assumes "0 < w" and "mn \<le> v"
  shows "bin_index v (make_bins mn w tgt) = 9 \<longleftrightarrow> mn + 9 * w \<le> v"
proof -
  have "(\<forall>j<10. \<not> holds v (make_bins mn w tgt ! j)) \<longleftrightarrow> mn + 10 * w \<le> v"
  proof
    assume a: "\<forall>j<10. \<not> holds v (make_bins mn w tgt ! j)"
    show "mn + 10 * w \<le> v"
    proof (rule ccontr)
      assume "\<not> mn + 10 * w \<le> v"
      then have "v < mn + of_nat 10 * w" by simp
      from holds_exists [OF _ assms(2) this] a show False by auto
    qed
  next
    assume b: "mn + 10 * w \<le> v"
    show "\<forall>j<10. \<not> holds v (make_bins mn w tgt ! j)"
    proof (intro allI impI)
      fix j :: nat
      assume j: "j < 10"
      then have "of_nat (Suc j) \<le> (10 :: rat)" using of_nat_le_iff [of "Suc j" 10, where 'a = rat] by simp
      with assms(1) have "of_nat (Suc j) * w \<le> 10 * w" by (simp add: mult_right_mono)
      with b have "mn + of_nat j * w + w \<le> v" by (simp add: algebra_simps)
      with j show "\<not> holds v (make_bins mn w tgt ! j)" by (simp add: holds_make_bins)
    qed
  qed
  with assms bin_index_make_bins [of w 9 v mn tgt] show ?thesis
    by (auto simp: holds_make_bins)
qed

lemma hd_sort_Min: "vs \<noteq> [] \<Longrightarrow> hd (sort vs) = Min (set vs)"
  for vs :: "rat list"
proof -
  assume ne: "vs \<noteq> []"
  then have "sort vs \<noteq> []" by (metis length_0_conv length_sort)
  then obtain x xs where c: "sort vs = x # xs" by (cases "sort vs") auto
  have s: "sorted (x # xs)" using sorted_sort [of vs] by (simp add: c)
  have m: "set vs = set (x # xs)" using set_sort [of "\<lambda>x. x" vs] by (simp add: c)
  have "Min (set vs) = x"
  proof (rule Min_eqI)
    show "finite (set vs)" by simp
    show "x \<in> set vs" by (simp add: m)
    fix y assume "y \<in> set vs"
    with s m show "x \<le> y" by auto
  qed
  then show ?thesis by (simp add: c)
qed

lemma last_sort_Max: "vs \<noteq> [] \<Longrightarrow> last (sort vs) = Max (set vs)"
  for vs :: "rat list"
proof -
  assume ne: "vs \<noteq> []"
  let ?xs = "sort vs"
  have n: "?xs \<noteq> []" using ne by (metis length_0_conv length_sort)
  have "Max (set vs) = last ?xs"
  proof (rule Max_eqI)
    show "finite (set vs)" by simp
    show "last ?xs \<in> set vs" using last_in_set [OF n] by simp
    fix y assume "y \<in> set vs"
    then have "y \<in> set ?xs" by simp
    then obtain k where k: "k < length ?xs" "?xs ! k = y"
      unfolding in_set_conv_nth by blast
    then have "?xs ! k \<le> ?xs ! (length ?xs - 1)"
      by (intro sorted_nth_mono) (simp_all add: sorted_sort del: length_sort)
    with k n show "y \<le> last ?xs" by (simp add: last_conv_nth)
  qed
  then show ?thesis by simp
qed

lemma binSize_of_pos: "mn \<le> mx \<Longrightarrow> 0 < binSize_of mn mx"
  by (auto simp: binSize_of_def binCount_def)

lemma length_filter_sort: "length (filter P (sort vs)) = length (filter P vs)"
  for vs :: "rat list"
proof -
  have "mset (filter P (sort vs)) = mset (filter P vs)" by simp
  then show ?thesis by (rule mset_eq_length)
qed

lemma yValues_nonempty: "submissions \<noteq> [] \<Longrightarrow> yValues rt submissions config \<noteq> []"
  by (simp add: yValues_def)

lemma histogram_eq:
  assumes "submissions \<noteq> []"
  shows "histogram rt submissions config
     = fold count_value (sort (yValues rt submissions config))
         (make_bins (Min (set (yValues rt submissions config)))
            (binSize_of (Min (set (yValues rt submissions config)))
               (Max (set (yValues rt submissions config))))
            (target config))"
proof -
  have ne: "yValues rt submissions config \<noteq> []" using assms by (rule yValues_nonempty)
  then have "length (sort (yValues rt submissions config)) \<noteq> 0" by simp
  then show ?thesis
    unfolding histogram_def Let_def
    by (simp only: if_False hd_sort_Min [OF ne] last_sort_Max [OF ne])
qed

lemma histogram_nth:
  assumes "submissions \<noteq> []" and "i < 10"
  shows "histogram rt submissions config ! i
     = (make_bins (Min (set (yValues rt submissions config)))
            (binSize_of (Min (set (yValues rt submissions config)))
               (Max (set (yValues rt submissions config))))
            (target config) ! i)
       \<lparr>bin_count := length (filter (\<lambda>v. bin_index v
           (make_bins (Min (set (yValues rt submissions config)))
            (binSize_of (Min (set (yValues rt submissions config)))
               (Max (set (yValues rt submissions config))))
            (target config)) = i) (yValues rt submissions config))\<rparr>"
  using assms(2) fold_count_value [of "sort (yValues rt submissions config)"
      "make_bins (Min (set (yValues rt submissions config)))
            (binSize_of (Min (set (yValues rt submissions config)))
               (Max (set (yValues rt submissions config))))
            (target config)"]
  by (simp add: histogram_eq [OF assms(1)] length_filter_sort nth_make_bins)

lemma histogram_length: "submissions \<noteq> [] \<Longrightarrow> length (histogram rt submissions config) = 10"
  using fold_count_value by (simp add: histogram_eq)

lemma histogram_sum:
  assumes "submissions \<noteq> []"
  shows "sum_list (map bin_count (histogram rt submissions config)) = length submissions"
proof -
  let ?mb = "make_bins (Min (set (yValues rt submissions config)))
            (binSize_of (Min (set (yValues rt submissions config)))
               (Max (set (yValues rt submissions config))))
            (target config)"
  have ne: "?mb \<noteq> []" using length_make_bins by (metis length_0_conv zero_neq_numeral)
  have z: "sum_list (map bin_count ?mb) = 0"
    by (simp add: make_bins_def Let_def)
  from sum_fold_count_value [OF ne, of "sort (yValues rt submissions config)"] z
  show ?thesis by (simp add: histogram_eq [OF assms] yValues_def)
qed

lemma chartData_histogram:
  "ctype config = Histogram \<Longrightarrow> xAxis config \<noteq> [] \<Longrightarrow> yAxis config \<noteq> [] \<Longrightarrow>
   submissions \<noteq> [] \<Longrightarrow>
   chartData rt submissions config = map BinPoint (histogram rt submissions config)"
  by (simp add: chartData_def)




section \<open>Aggregation: when the transform is empty\<close>

lemma length_series:
  "length (map (series_point rt config) (enumerate 0 submissions)) = length submissions"
  by simp




end
